theory Spec2Isabelle
  imports Main
begin

section \<open>JavaScript values\<close>

text \<open>
  The normalizer (\<^verbatim>\<open>src/schema-normalizer.ts\<close>) works on values of type
  \<^verbatim>\<open>unknown\<close>: whatever the JSON-RPC layer hands over. A value is modelled by the
  datatype below. An object is the list of its own properties in the order in which
  JavaScript enumerates them; a key occurs at most once in the property list of an
  object that JavaScript built. Numbers are carried as integers: the program never
  computes with them, it only tests whether one is zero (falsy).
  \<^verbatim>\<open>undefined\<close> is a value of its own, since the normalizer stores it
  (\<^verbatim>\<open>description: undefined\<close>) and compares against it.
\<close>

datatype js_value =
    JUndefined
  | JNull
  | JBool bool
  | JNumber int
  | JString string
  | JArray "js_value list"
  | JObject "(string \<times> js_value) list"

text \<open>A thrown value: \<open>Error m\<close> is an instance of \<^verbatim>\<open>Error\<close> with message \<open>m\<close>
  (what \<^verbatim>\<open>throw new Error(m)\<close> raises), \<open>Thrown v\<close> is any other thrown value.\<close>

datatype thrown = Error string | Thrown js_value

text \<open>The \<^verbatim>\<open>typeof\<close> operator.\<close>

fun typeof :: "js_value \<Rightarrow> string" where
  "typeof JUndefined = ''undefined''"
| "typeof JNull = ''object''"
| "typeof (JBool b) = ''boolean''"
| "typeof (JNumber n) = ''number''"
| "typeof (JString s) = ''string''"
| "typeof (JArray xs) = ''object''"
| "typeof (JObject ps) = ''object''"

text \<open>Truthiness, as tested by \<^verbatim>\<open>!v\<close>.\<close>

fun js_truthy :: "js_value \<Rightarrow> bool" where
  "js_truthy JUndefined = False"
| "js_truthy JNull = False"
| "js_truthy (JBool b) = b"
| "js_truthy (JNumber n) = (n \<noteq> 0)"
| "js_truthy (JString s) = (s \<noteq> [])"
| "js_truthy (JArray xs) = True"
| "js_truthy (JObject ps) = True"

text \<open>\<^verbatim>\<open>Array.isArray\<close>.\<close>

fun isArray :: "js_value \<Rightarrow> bool" where
  "isArray (JArray xs) = True"
| "isArray v = False"

text \<open>
  Reading a property, \<^verbatim>\<open>v.k\<close>. The program reads only the names \<^verbatim>\<open>type\<close>,
  \<^verbatim>\<open>properties\<close>, \<^verbatim>\<open>name\<close>, \<^verbatim>\<open>description\<close>, \<^verbatim>\<open>inputSchema\<close>, \<^verbatim>\<open>error\<close>,
  \<^verbatim>\<open>result\<close>, \<^verbatim>\<open>tools\<close>, \<^verbatim>\<open>method\<close>, \<^verbatim>\<open>id\<close> and \<^verbatim>\<open>params\<close>, and only after it
  has checked that the value is a non-null object; none of these names is an index,
  \<^verbatim>\<open>length\<close> or a member of a built-in prototype, so an array and every object
  without the key yield \<^verbatim>\<open>undefined\<close>.
\<close>

fun js_get :: "js_value \<Rightarrow> string \<Rightarrow> js_value" where
  "js_get (JObject ps) k = (case map_of ps k of None \<Rightarrow> JUndefined | Some v \<Rightarrow> v)"
| "js_get v k = JUndefined"

text \<open>Decimal digits of an array index, the key under which an array holds an element.\<close>

fun string_of_nat :: "nat \<Rightarrow> string" where
  "string_of_nat n =
     (if n < 10 then [char_of (48 + n)]
      else string_of_nat (n div 10) @ [char_of (48 + n mod 10)])"

declare string_of_nat.simps [simp del]

text \<open>The own enumerable properties that \<^verbatim>\<open>Object.entries\<close> and the spread
  \<^verbatim>\<open>{...v}\<close> go through, in order.\<close>

fun own_entries :: "js_value \<Rightarrow> (string \<times> js_value) list" where
  "own_entries (JObject ps) = ps"
| "own_entries (JArray xs) = zip (map string_of_nat [0..<length xs]) xs"
| "own_entries v = []"

text \<open>
  The order in which \<^verbatim>\<open>Object.entries\<close>, a spread and \<^verbatim>\<open>JSON.stringify\<close> go through
  the own properties of an object: first the keys that are array indices (the decimal
  numerals, without leading zero, of the integers from \<open>0\<close> to \<open>2^32 - 2\<close>) in
  ascending numeric order, then all other keys in the order of their creation. The
  property list of an object is kept in this order.
\<close>

definition is_digit :: "char \<Rightarrow> bool" where
  "is_digit c = (48 \<le> (of_char c :: nat) \<and> (of_char c :: nat) \<le> 57)"

definition index_value :: "string \<Rightarrow> nat" where
  "index_value k = foldl (\<lambda>n c. 10 * n + (of_char c - 48)) 0 k"

definition is_array_index :: "string \<Rightarrow> bool" where
  "is_array_index k =
     (k \<noteq> [] \<and> list_all is_digit k \<and> (k = ''0'' \<or> hd k \<noteq> CHR ''0'')
      \<and> index_value k < 4294967295)"

definition index_part :: "(string \<times> js_value) list \<Rightarrow> (string \<times> js_value) list" where
  "index_part ps = filter (\<lambda>p. is_array_index (fst p)) ps"

definition named_part :: "(string \<times> js_value) list \<Rightarrow> (string \<times> js_value) list" where
  "named_part ps = filter (\<lambda>p. \<not> is_array_index (fst p)) ps"

text \<open>
  Defining the own property \<open>k\<close> of an object under construction. An existing
  property keeps its place and gets the new value. A new property whose key is an
  array index is placed among the array indices, behind the smaller ones (two
  different array indices never have the same value). Any other new property is
  placed last.
\<close>

primrec update_prop :: "string \<Rightarrow> js_value \<Rightarrow> (string \<times> js_value) list \<Rightarrow> (string \<times> js_value) list" where
  "update_prop k v [] = []"
| "update_prop k v (p # ps) = (if fst p = k then (k, v) # ps else p # update_prop k v ps)"

primrec insert_index :: "string \<Rightarrow> js_value \<Rightarrow> (string \<times> js_value) list \<Rightarrow> (string \<times> js_value) list" where
  "insert_index k v [] = [(k, v)]"
| "insert_index k v (p # ps) =
     (if is_array_index (fst p) \<and> index_value (fst p) \<le> index_value k
      then p # insert_index k v ps else (k, v) # p # ps)"

definition set_prop :: "string \<Rightarrow> js_value \<Rightarrow> (string \<times> js_value) list \<Rightarrow> (string \<times> js_value) list" where
  "set_prop k v ps =
     (if k \<in> fst ` set ps then update_prop k v ps
      else if is_array_index k then insert_index k v ps
      else ps @ [(k, v)])"

text \<open>The spread \<^verbatim>\<open>{...acc, ...src}\<close>: the entries of \<open>src\<close> are defined on \<open>acc\<close>
  one after the other.\<close>

primrec spread :: "(string \<times> js_value) list \<Rightarrow> (string \<times> js_value) list \<Rightarrow> (string \<times> js_value) list" where
  "spread acc [] = acc"
| "spread acc (p # ps) = spread (set_prop (fst p) (snd p) acc) ps"

section \<open>The schema normalizer\<close>

text \<open>\<^verbatim>\<open>schemaNeedsNormalization\<close>, lines 35 to 44.\<close>

definition schemaNeedsNormalization :: "js_value \<Rightarrow> bool" where
  "schemaNeedsNormalization schema =
     (if typeof schema \<noteq> ''object'' \<or> schema = JNull then False
      else \<not> js_truthy (js_get schema ''type'') \<and> js_get schema ''properties'' \<noteq> JUndefined)"

text \<open>\<^verbatim>\<open>normalizeInputSchema\<close>, lines 52 to 61: the object literal
  \<^verbatim>\<open>{ type: "object", ...schema }\<close> creates \<^verbatim>\<open>type\<close> first and then spreads the schema
  over it.\<close>

definition normalizeInputSchema :: "js_value \<Rightarrow> js_value" where
  "normalizeInputSchema schema =
     (if \<not> schemaNeedsNormalization schema then schema
      else JObject (spread [(''type'', JString ''object'')] (own_entries schema)))"

text \<open>
  The assignment \<^verbatim>\<open>normalizedTool[key] = value\<close> of the loop in \<^verbatim>\<open>normalizeTool\<close>.
  The target is an object literal, so it inherits the accessor \<^verbatim>\<open>__proto__\<close> of
  \<^verbatim>\<open>Object.prototype\<close>: assigning to that key runs the setter and creates no own
  property. Every other key is defined as an own property.
\<close>

definition assign_prop :: "string \<Rightarrow> js_value \<Rightarrow> (string \<times> js_value) list \<Rightarrow> (string \<times> js_value) list" where
  "assign_prop k v ps = (if k = ''__proto__'' then ps else set_prop k v ps)"

text \<open>The loop at lines 121 to 125 over \<^verbatim>\<open>Object.entries(toolObj)\<close>.\<close>

primrec copy_extra_fields :: "(string \<times> js_value) list \<Rightarrow> (string \<times> js_value) list \<Rightarrow> (string \<times> js_value) list" where
  "copy_extra_fields [] normalizedTool = normalizedTool"
| "copy_extra_fields (e # es) normalizedTool =
     copy_extra_fields es
       (if fst e \<notin> set [''name'', ''description'', ''inputSchema'']
        then assign_prop (fst e) (snd e) normalizedTool else normalizedTool)"

text \<open>The entries that the loop copies: those it does not skip and whose assignment
  creates a property.\<close>

definition is_extra_field :: "string \<times> js_value \<Rightarrow> bool" where
  "is_extra_field e =
     (fst e \<notin> set [''name'', ''description'', ''inputSchema''] \<and> fst e \<noteq> ''__proto__'')"

text \<open>The default schema of line 117.\<close>

definition default_schema :: js_value where
  "default_schema = JObject [(''type'', JString ''object''), (''properties'', JObject [])]"

text \<open>The string a template literal \<^verbatim>\<open>${v}\<close> inserts for a string \<open>v\<close>.\<close>

fun string_value :: "js_value \<Rightarrow> string" where
  "string_value (JString s) = s"
| "string_value v = []"

text \<open>\<^verbatim>\<open>normalizeTool\<close>, lines 83 to 128. A \<^verbatim>\<open>throw\<close> is the result \<open>Inl\<close>.\<close>

definition normalizeTool :: "js_value \<Rightarrow> thrown + js_value" where
  "normalizeTool tool =
     (if typeof tool \<noteq> ''object'' \<or> tool = JNull then
        Inl (Error (''Invalid tool: expected object, got '' @ typeof tool))
      else if typeof (js_get tool ''name'') \<noteq> ''string'' then
        Inl (Error ''Invalid tool: missing or invalid 'name' field'')
      else
        let normalizedTool =
              [(''name'', js_get tool ''name''),
               (''description'',
                  if typeof (js_get tool ''description'') = ''string''
                  then js_get tool ''description'' else JUndefined),
               (''inputSchema'', JObject [])]
        in
          if js_get tool ''inputSchema'' \<noteq> JUndefined then
            (if typeof (js_get tool ''inputSchema'') \<noteq> ''object''
                \<or> js_get tool ''inputSchema'' = JNull then
               Inl (Error (''Invalid tool '' @ [CHR 0x27] @ string_value (js_get tool ''name'')
                           @ [CHR 0x27] @ '': inputSchema must be an object''))
             else
               Inr (JObject (copy_extra_fields (own_entries tool)
                      (set_prop ''inputSchema''
                         (normalizeInputSchema (js_get tool ''inputSchema'')) normalizedTool))))
          else
            Inr (JObject (copy_extra_fields (own_entries tool)
                   (set_prop ''inputSchema'' default_schema normalizedTool))))"

text \<open>\<^verbatim>\<open>Array.prototype.map\<close> with a callback that may throw: the first throw ends
  the traversal.\<close>

primrec map_throwing :: "('a \<Rightarrow> thrown + 'b) \<Rightarrow> 'a list \<Rightarrow> thrown + 'b list" where
  "map_throwing f [] = Inr []"
| "map_throwing f (x # xs) =
     (case f x of
        Inl e \<Rightarrow> Inl e
      | Inr y \<Rightarrow> (case map_throwing f xs of Inl e \<Rightarrow> Inl e | Inr ys \<Rightarrow> Inr (y # ys)))"

text \<open>\<^verbatim>\<open>normalizeTools\<close>, lines 69 to 75.\<close>

fun array_elements :: "js_value \<Rightarrow> js_value list" where
  "array_elements (JArray xs) = xs"
| "array_elements v = []"

definition normalizeTools :: "js_value \<Rightarrow> thrown + js_value list" where
  "normalizeTools tools =
     (if \<not> isArray tools then Inr []
      else map_throwing normalizeTool (array_elements tools))"

text \<open>\<^verbatim>\<open>normalizeToolsListResponse\<close>, lines 136 to 170.\<close>

definition normalizeToolsListResponse :: "js_value \<Rightarrow> thrown + js_value" where
  "normalizeToolsListResponse response =
     (if typeof response \<noteq> ''object'' \<or> response = JNull then Inr response
      else if js_get response ''error'' \<noteq> JUndefined then Inr response
      else
        let result = js_get response ''result'' in
        if typeof result \<noteq> ''object'' \<or> result = JNull then Inr response
        else if \<not> isArray (js_get result ''tools'') then Inr response
        else
          (case normalizeTools (js_get result ''tools'') of
             Inl e \<Rightarrow> Inl e
           | Inr normalizedTools \<Rightarrow>
               Inr (JObject
                 (set_prop ''result''
                    (JObject (set_prop ''tools'' (JArray normalizedTools)
                                (spread [] (own_entries result))))
                    (spread [] (own_entries response))))))"

text \<open>Applying a function that may throw to its own result: a throw of the first
  application ends the computation.\<close>

definition twice :: "('a \<Rightarrow> thrown + 'a) \<Rightarrow> 'a \<Rightarrow> thrown + 'a" where
  "twice f x = (case f x of Inl e \<Rightarrow> Inl e | Inr y \<Rightarrow> f y)"

text \<open>
  The property list of a value that JavaScript built holds every key once and in
  the order of enumeration, at every depth. The functions above are defined on
  every property list; this predicate singles out the lists that stand for an
  object.
\<close>

fun ordered_keys :: "string list \<Rightarrow> bool" where
  "ordered_keys [] = True"
| "ordered_keys (k # ks) =
     (if is_array_index k
      then (\<forall>k' \<in> set ks. is_array_index k' \<longrightarrow> index_value k \<le> index_value k')
           \<and> ordered_keys ks
      else (\<forall>k' \<in> set ks. \<not> is_array_index k'))"

fun wf_value :: "js_value \<Rightarrow> bool" where
  "wf_value (JArray xs) = list_all wf_value xs"
| "wf_value (JObject ps) =
     (distinct (map fst ps) \<and> ordered_keys (map fst ps) \<and> list_all wf_value (map snd ps))"
| "wf_value v = True"


section \<open>The message endpoint of the router\<close>

text \<open>
  The upstream MCP client of a connection, as far as the handler of
  \<^verbatim>\<open>POST /message\<close> uses it: \<^verbatim>\<open>listTools()\<close> resolves to a result object (its
  property list) or rejects, \<^verbatim>\<open>callTool(params)\<close> resolves to a value or rejects.
\<close>

record client =
  listTools :: "thrown + (string \<times> js_value) list"
  callTool :: "js_value \<Rightarrow> thrown + js_value"

text \<open>\<^verbatim>\<open>ClientConnection\<close>. The handler reads \<^verbatim>\<open>mcpClient\<close> and writes to
  \<^verbatim>\<open>response\<close>, the stream of the connection; the writes are events of the trace
  below. \<^verbatim>\<open>messageQueue\<close> and \<^verbatim>\<open>requestMap\<close> are created empty and never used.\<close>

record ClientConnection =
  mcpClient :: client
  messageQueue :: "js_value list"

text \<open>
  What one run of the handler does, in the order in which it does it: a call of the
  upstream client, \<^verbatim>\<open>sendToClient(connection, message)\<close> (a write to the stream of
  the session), and \<^verbatim>\<open>res.status(code).json(body)\<close> (the reply to the caller of the
  endpoint).
\<close>

datatype event =
    UpstreamListTools
  | UpstreamCallTool js_value
  | SendToClient js_value
  | Respond nat js_value

text \<open>\<^verbatim>\<open>v ?? null\<close>.\<close>

definition or_null :: "js_value \<Rightarrow> js_value" where
  "or_null v = (if v = JUndefined \<or> v = JNull then JNull else v)"

text \<open>
  The text a template literal \<^verbatim>\<open>${v}\<close> inserts. For a string it is the string. For
  any other value it is the conversion of the engine, which the model takes as the
  parameter \<open>toString\<close>; the conversion throws for some objects.
\<close>

definition template :: "(js_value \<Rightarrow> thrown + string) \<Rightarrow> js_value \<Rightarrow> thrown + string" where
  "template toString v = (case v of JString s \<Rightarrow> Inr s | _ \<Rightarrow> toString v)"

text \<open>\<^verbatim>\<open>error instanceof Error ? error.message : "Unknown error"\<close>, line 242.\<close>

fun errorMessage :: "thrown \<Rightarrow> string" where
  "errorMessage (Error m) = m"
| "errorMessage (Thrown v) = ''Unknown error''"

text \<open>The \<^verbatim>\<open>catch\<close> block, lines 239 to 255.\<close>

definition catch_block :: "js_value \<Rightarrow> thrown \<Rightarrow> event list" where
  "catch_block message error =
     [SendToClient (JObject
        [(''jsonrpc'', JString ''2.0''),
         (''id'', js_get message ''id''),
         (''error'', JObject
            [(''code'', JNumber (- 32603)),
             (''message'', JString (''Internal error: '' @ errorMessage error))])]),
      Respond 500 (JObject
        [(''status'', JString ''error''),
         (''message'', JString (errorMessage error))])]"

text \<open>The \<^verbatim>\<open>try\<close> block, lines 191 to 238, with its \<^verbatim>\<open>catch\<close>.\<close>

definition dispatch ::
  "(js_value \<Rightarrow> thrown + string) \<Rightarrow> ClientConnection \<Rightarrow> js_value \<Rightarrow> event list" where
  "dispatch toString connection message =
     (if js_get message ''method'' = JString ''tools/list'' then
        (case listTools (mcpClient connection) of
           Inl e \<Rightarrow> UpstreamListTools # catch_block message e
         | Inr result \<Rightarrow>
             (case normalizeToolsListResponse (JObject
                     [(''jsonrpc'', JString ''2.0''),
                      (''id'', js_get message ''id''),
                      (''result'', JObject [(''tools'', js_get (JObject result) ''tools'')])]) of
                Inl e \<Rightarrow> UpstreamListTools # catch_block message e
              | Inr normalizedResponse \<Rightarrow>
                  [UpstreamListTools,
                   SendToClient normalizedResponse,
                   Respond 202 (JObject [(''status'', JString ''accepted'')])]))
      else if js_get message ''method'' = JString ''tools/call'' then
        (case callTool (mcpClient connection) (js_get message ''params'') of
           Inl e \<Rightarrow> UpstreamCallTool (js_get message ''params'') # catch_block message e
         | Inr result \<Rightarrow>
             [UpstreamCallTool (js_get message ''params''),
              SendToClient (JObject
                [(''jsonrpc'', JString ''2.0''),
                 (''id'', js_get message ''id''),
                 (''result'', result)]),
              Respond 202 (JObject [(''status'', JString ''accepted'')])])
      else
        (case template toString (js_get message ''method'') of
           Inl e \<Rightarrow> catch_block message e
         | Inr method \<Rightarrow>
             [Respond 501 (JObject
                [(''jsonrpc'', JString ''2.0''),
                 (''error'', JObject
                    [(''code'', JNumber (- 32601)),
                     (''message'', JString (''Method not implemented: '' @ method))]),
                 (''id'', or_null (js_get message ''id''))])]))"

text \<open>A reply of the validation part, lines 150 to 189: JSON-RPC error \<open>-32600\<close>.\<close>

definition invalid_request :: "nat \<Rightarrow> string \<Rightarrow> js_value \<Rightarrow> event" where
  "invalid_request status text request_id =
     Respond status (JObject
       [(''jsonrpc'', JString ''2.0''),
        (''error'', JObject [(''code'', JNumber (- 32600)), (''message'', JString text)]),
        (''id'', request_id)])"

text \<open>
  The handler of \<^verbatim>\<open>POST /message\<close>, lines 147 to 256. \<open>connections\<close> is the map of
  live connections, \<open>clientId\<close> the query parameter (\<open>None\<close> when it is missing),
  \<open>message\<close> the parsed body.
\<close>

definition post_message ::
  "(js_value \<Rightarrow> thrown + string) \<Rightarrow> (string \<rightharpoonup> ClientConnection) \<Rightarrow> string option \<Rightarrow> js_value
     \<Rightarrow> event list" where
  "post_message toString connections clientId message =
     (case clientId of
        None \<Rightarrow> [invalid_request 400 ''Missing clientId parameter'' JNull]
      | Some cid \<Rightarrow>
          if cid = [] then [invalid_request 400 ''Missing clientId parameter'' JNull]
          else
            (case connections cid of
               None \<Rightarrow> [invalid_request 404 ''Client not found'' JNull]
             | Some connection \<Rightarrow>
                 if \<not> js_truthy message \<or> typeof message \<noteq> ''object'' then
                   [invalid_request 400 ''Invalid JSON-RPC message'' JNull]
                 else if \<not> js_truthy (js_get message ''method'') then
                   [invalid_request 400 ''Missing method field'' (or_null (js_get message ''id''))]
                 else dispatch toString connection message))"


section \<open>Property lists\<close>

lemmas evaluate_props = set_prop_def is_array_index_def is_digit_def index_value_def

subsection \<open>Keys in order\<close>

lemma ordered_keys_named: "\<forall>k \<in> set ks. \<not> is_array_index k \<Longrightarrow> ordered_keys ks"
  by (induction ks) auto

lemma ordered_keys_tail: "ordered_keys (k # ks) \<Longrightarrow> ordered_keys ks"
  by (cases "is_array_index k") (simp_all add: ordered_keys_named)

lemma ordered_keys_prefix: "ordered_keys (xs @ ys) \<Longrightarrow> ordered_keys xs"
  by (induction xs) (auto split: if_splits)

lemma ordered_keys_snoc_named:
  "ordered_keys ks \<Longrightarrow> \<not> is_array_index k \<Longrightarrow> ordered_keys (ks @ [k])"
  by (induction ks) (auto split: if_splits)

lemma ordered_keys_before_index:
  "ordered_keys (xs @ k # ys) \<Longrightarrow> is_array_index k \<Longrightarrow>
     \<forall>x \<in> set xs. is_array_index x \<and> index_value x \<le> index_value k"
proof (induction xs)
  case Nil
  then show ?case by simp
next
  case (Cons x xs)
  have x: "is_array_index x"
  proof (rule ccontr)
    assume "\<not> is_array_index x"
    with Cons.prems(1) have "\<not> is_array_index k" by simp
    with Cons.prems(2) show False by simp
  qed
  with Cons.prems(1) have "index_value x \<le> index_value k" and "ordered_keys (xs @ k # ys)"
    using Cons.prems(2) by simp_all
  with x Cons.IH Cons.prems(2) show ?case by simp
qed

lemma parts_of_ordered:
  "ordered_keys (map fst ps) \<Longrightarrow> ps = index_part ps @ named_part ps"
proof (induction ps)
  case Nil
  then show ?case by (simp add: index_part_def named_part_def)
next
  case (Cons p ps)
  show ?case
  proof (cases "is_array_index (fst p)")
    case True
    with Cons show ?thesis by (simp add: index_part_def named_part_def)
  next
    case False
    with Cons.prems have "\<forall>q \<in> set ps. \<not> is_array_index (fst q)" by simp
    with False show ?thesis by (simp add: index_part_def named_part_def)
  qed
qed

lemma index_part_keys: "\<forall>p \<in> set (index_part ps). is_array_index (fst p)"
  by (simp add: index_part_def)

lemma named_part_keys: "\<forall>p \<in> set (named_part ps). \<not> is_array_index (fst p)"
  by (simp add: named_part_def)

lemma index_part_all: "\<forall>p \<in> set ps. is_array_index (fst p) \<Longrightarrow> index_part ps = ps"
  by (simp add: index_part_def)

lemma index_part_none: "\<forall>p \<in> set ps. \<not> is_array_index (fst p) \<Longrightarrow> index_part ps = []"
  by (simp add: index_part_def)

lemma named_part_all: "\<forall>p \<in> set ps. \<not> is_array_index (fst p) \<Longrightarrow> named_part ps = ps"
  by (simp add: named_part_def)

lemma named_part_none: "\<forall>p \<in> set ps. is_array_index (fst p) \<Longrightarrow> named_part ps = []"
  by (simp add: named_part_def)

lemma index_part_append: "index_part (xs @ ys) = index_part xs @ index_part ys"
  by (simp add: index_part_def)

lemma named_part_append: "named_part (xs @ ys) = named_part xs @ named_part ys"
  by (simp add: named_part_def)

lemma keys_index_part:
  "fst ` set (index_part ps) = {k \<in> fst ` set ps. is_array_index k}"
  by (auto simp: index_part_def)

lemma keys_named_part:
  "fst ` set (named_part ps) = {k \<in> fst ` set ps. \<not> is_array_index k}"
  by (auto simp: named_part_def)

subsection \<open>Updating a property\<close>

lemma map_fst_update_prop: "map fst (update_prop k v ps) = map fst ps"
  by (induction ps) auto

lemma map_of_update_prop_same: "k \<in> fst ` set ps \<Longrightarrow> map_of (update_prop k v ps) k = Some v"
  by (induction ps) auto

lemma map_of_update_prop_other: "k' \<noteq> k \<Longrightarrow> map_of (update_prop k v ps) k' = map_of ps k'"
  by (induction ps) auto

lemma update_prop_same: "map_of ps k = Some v \<Longrightarrow> update_prop k v ps = ps"
  by (induction ps) (auto split: if_splits)

lemma update_prop_append:
  "update_prop k v (xs @ ys) =
     (if k \<in> fst ` set xs then update_prop k v xs @ ys else xs @ update_prop k v ys)"
  by (induction xs) auto

lemma index_part_update_prop:
  "index_part (update_prop k v ps) =
     (if is_array_index k then update_prop k v (index_part ps) else index_part ps)"
  by (induction ps) (auto simp: index_part_def)

lemma named_part_update_prop:
  "named_part (update_prop k v ps) =
     (if is_array_index k then named_part ps else update_prop k v (named_part ps))"
  by (induction ps) (auto simp: named_part_def)

subsection \<open>Creating a property whose key is an array index\<close>

lemma set_insert_index: "set (insert_index k v ps) = insert (k, v) (set ps)"
  by (induction ps) auto

lemma map_of_insert_index:
  "k \<notin> fst ` set ps \<Longrightarrow>
     map_of (insert_index k v ps) k' = (if k' = k then Some v else map_of ps k')"
  by (induction ps) auto

lemma distinct_insert_index:
  "distinct (map fst ps) \<Longrightarrow> k \<notin> fst ` set ps \<Longrightarrow> distinct (map fst (insert_index k v ps))"
  by (induction ps) (auto simp: set_insert_index)

lemma insert_index_before_named:
  "\<forall>p \<in> set ys. \<not> is_array_index (fst p) \<Longrightarrow>
     insert_index k v (xs @ ys) = insert_index k v xs @ ys"
proof (induction xs)
  case Nil
  then show ?case by (cases ys) auto
next
  case (Cons x xs)
  then show ?case by simp
qed

lemma insert_index_last:
  "\<forall>p \<in> set ps. is_array_index (fst p) \<and> index_value (fst p) \<le> index_value k \<Longrightarrow>
     insert_index k v ps = ps @ [(k, v)]"
  by (induction ps) auto

lemma ordered_keys_Cons_index:
  "is_array_index k \<Longrightarrow> ordered_keys (k # ks) \<longleftrightarrow>
     (\<forall>k' \<in> set ks. is_array_index k' \<longrightarrow> index_value k \<le> index_value k') \<and> ordered_keys ks"
  by simp

lemma ordered_keys_Cons_named:
  "\<not> is_array_index k \<Longrightarrow> ordered_keys (k # ks) \<longleftrightarrow> (\<forall>k' \<in> set ks. \<not> is_array_index k')"
  by simp

lemma keys_insert_index: "set (map fst (insert_index k v ps)) = insert k (set (map fst ps))"
  by (simp add: set_insert_index)

lemma ordered_insert_index:
  "ordered_keys (map fst ps) \<Longrightarrow> is_array_index k \<Longrightarrow>
     ordered_keys (map fst (insert_index k v ps))"
proof (induction ps)
  case Nil
  then show ?case by simp
next
  case (Cons p ps)
  have whole: "ordered_keys (fst p # map fst ps)" using Cons.prems(1) by simp
  have tail: "ordered_keys (map fst ps)" by (rule ordered_keys_tail [OF whole])
  show ?case
  proof (cases "is_array_index (fst p) \<and> index_value (fst p) \<le> index_value k")
    case True
    then have p: "is_array_index (fst p)" and le: "index_value (fst p) \<le> index_value k"
      by blast+
    have old: "\<forall>k' \<in> set (map fst ps). is_array_index k' \<longrightarrow> index_value (fst p) \<le> index_value k'"
      using whole ordered_keys_Cons_index [OF p] by blast
    have A: "\<forall>k' \<in> set (map fst (insert_index k v ps)).
               is_array_index k' \<longrightarrow> index_value (fst p) \<le> index_value k'"
      unfolding keys_insert_index using old le by blast
    have B: "ordered_keys (map fst (insert_index k v ps))"
      by (rule Cons.IH [OF tail Cons.prems(2)])
    have "ordered_keys (fst p # map fst (insert_index k v ps))"
      using ordered_keys_Cons_index [OF p] A B by blast
    moreover have "insert_index k v (p # ps) = p # insert_index k v ps"
      using True by simp
    ultimately show ?thesis by simp
  next
    case False
    have A: "\<forall>k' \<in> set (fst p # map fst ps). is_array_index k' \<longrightarrow> index_value k \<le> index_value k'"
    proof (cases "is_array_index (fst p)")
      case True
      with False have less: "index_value k < index_value (fst p)" by simp
      have "\<forall>k' \<in> set (map fst ps). is_array_index k' \<longrightarrow> index_value (fst p) \<le> index_value k'"
        using whole ordered_keys_Cons_index [OF True] by blast
      with less show ?thesis by fastforce
    next
      case named: False
      have "\<forall>k' \<in> set (map fst ps). \<not> is_array_index k'"
        using whole ordered_keys_Cons_named [OF named] by blast
      with named show ?thesis by simp
    qed
    have "ordered_keys (k # fst p # map fst ps)"
      using ordered_keys_Cons_index [OF Cons.prems(2)] A whole by blast
    moreover have "insert_index k v (p # ps) = (k, v) # p # ps"
      by (simp only: insert_index.simps False if_False)
    ultimately show ?thesis by simp
  qed
qed

subsection \<open>Defining a property\<close>

lemma keys_set_prop: "fst ` set (set_prop k v ps) = insert k (fst ` set ps)"
proof -
  have "fst ` set (update_prop k v ps) = fst ` set ps"
    using map_fst_update_prop [of k v ps] by (metis set_map)
  then show ?thesis by (auto simp: set_prop_def set_insert_index)
qed

lemma distinct_set_prop: "distinct (map fst ps) \<Longrightarrow> distinct (map fst (set_prop k v ps))"
  by (simp add: set_prop_def map_fst_update_prop distinct_insert_index)

lemma ordered_set_prop:
  "ordered_keys (map fst ps) \<Longrightarrow> ordered_keys (map fst (set_prop k v ps))"
  by (simp add: set_prop_def map_fst_update_prop ordered_insert_index ordered_keys_snoc_named)

lemma map_fst_set_prop: "k \<in> fst ` set ps \<Longrightarrow> map fst (set_prop k v ps) = map fst ps"
  by (simp add: set_prop_def map_fst_update_prop)

lemma map_of_absent: "k \<notin> fst ` set ps \<Longrightarrow> map_of ps k = None"
  by (simp add: map_of_eq_None_iff)

lemma map_of_Some_key: "map_of ps k = Some v \<Longrightarrow> k \<in> fst ` set ps"
  by (metis map_of_eq_None_iff option.distinct(1))

lemma map_of_set_prop_same: "map_of (set_prop k v ps) k = Some v"
  by (simp add: set_prop_def map_of_update_prop_same map_of_insert_index map_of_absent
        map_add_def)

lemma map_of_set_prop_other: "k' \<noteq> k \<Longrightarrow> map_of (set_prop k v ps) k' = map_of ps k'"
  by (auto simp: set_prop_def map_of_update_prop_other map_of_insert_index map_add_def
           split: option.splits)

lemma set_prop_idem: "set_prop k v (set_prop k v ps) = set_prop k v ps"
proof -
  have "k \<in> fst ` set (set_prop k v ps)" by (simp add: keys_set_prop)
  then have "set_prop k v (set_prop k v ps) = update_prop k v (set_prop k v ps)"
    by (simp add: set_prop_def)
  also have "\<dots> = set_prop k v ps"
    by (rule update_prop_same) (rule map_of_set_prop_same)
  finally show ?thesis .
qed

lemma set_prop_named_fresh:
  "\<not> is_array_index k \<Longrightarrow> k \<notin> fst ` set ps \<Longrightarrow> set_prop k v ps = ps @ [(k, v)]"
  by (simp add: set_prop_def)

lemma set_prop_named_append:
  "\<not> is_array_index k \<Longrightarrow> k \<notin> fst ` set b \<Longrightarrow> set_prop k v (b @ acc) = b @ set_prop k v acc"
  by (auto simp: set_prop_def update_prop_append)

lemma set_prop_last:
  assumes "k \<notin> fst ` set ps" and "ordered_keys (map fst ps @ [k])"
  shows "set_prop k v ps = ps @ [(k, v)]"
proof (cases "is_array_index k")
  case True
  from ordered_keys_before_index [of "map fst ps" k "[]"] assms(2) True
  have "\<forall>p \<in> set ps. is_array_index (fst p) \<and> index_value (fst p) \<le> index_value k"
    by simp
  from insert_index_last [OF this] assms(1) True show ?thesis
    by (simp add: set_prop_def)
next
  case False
  with assms(1) show ?thesis by (simp add: set_prop_def)
qed

text \<open>On an ordered list, a property is defined in its part of the list.\<close>

lemma parts_set_prop:
  assumes "ordered_keys (map fst ps)"
  shows "index_part (set_prop k v ps) =
           (if is_array_index k then set_prop k v (index_part ps) else index_part ps)"
    and "named_part (set_prop k v ps) =
           (if is_array_index k then named_part ps else set_prop k v (named_part ps))"
proof -
  have ps: "ps = index_part ps @ named_part ps"
    by (rule parts_of_ordered [OF assms])
  have ins: "is_array_index k \<Longrightarrow>
      insert_index k v ps = insert_index k v (index_part ps) @ named_part ps"
    using insert_index_before_named [OF named_part_keys, where xs = "index_part ps"] ps
    by metis
  have idx: "is_array_index k \<Longrightarrow>
      index_part (insert_index k v (index_part ps)) = insert_index k v (index_part ps)"
    by (rule index_part_all) (auto simp: set_insert_index index_part_def)
  have nmd: "is_array_index k \<Longrightarrow> named_part (insert_index k v (index_part ps)) = []"
    by (rule named_part_none) (auto simp: set_insert_index index_part_def)
  have ii: "index_part (index_part ps) = index_part ps" "named_part (index_part ps) = []"
    "index_part (named_part ps) = []" "named_part (named_part ps) = named_part ps"
    by (simp_all add: index_part_def named_part_def)
  show "index_part (set_prop k v ps) =
           (if is_array_index k then set_prop k v (index_part ps) else index_part ps)"
    by (auto simp: set_prop_def index_part_update_prop keys_index_part ins
          index_part_append idx ii)
      (simp_all add: index_part_def)
  show "named_part (set_prop k v ps) =
           (if is_array_index k then named_part ps else set_prop k v (named_part ps))"
    by (auto simp: set_prop_def named_part_update_prop keys_named_part ins
          named_part_append nmd ii)
      (simp_all add: named_part_def)
qed

subsection \<open>Spreading\<close>

lemma keys_spread: "fst ` set (spread acc qs) = fst ` set acc \<union> fst ` set qs"
  by (induction qs arbitrary: acc) (auto simp: keys_set_prop)

lemma distinct_spread: "distinct (map fst acc) \<Longrightarrow> distinct (map fst (spread acc qs))"
  by (induction qs arbitrary: acc) (auto simp: distinct_set_prop)

lemma ordered_spread:
  "ordered_keys (map fst acc) \<Longrightarrow> ordered_keys (map fst (spread acc qs))"
  by (induction qs arbitrary: acc) (auto simp: ordered_set_prop)

lemma map_of_spread_other:
  "k \<notin> fst ` set qs \<Longrightarrow> map_of (spread acc qs) k = map_of acc k"
  by (induction qs arbitrary: acc) (auto simp: map_of_set_prop_other)

lemma spread_append: "spread acc (xs @ ys) = spread (spread acc xs) ys"
  by (induction xs arbitrary: acc) auto

text \<open>Spreading an object over an empty one gives its property list back.\<close>

lemma spread_ordered:
  "distinct (map fst (acc @ qs)) \<Longrightarrow> ordered_keys (map fst (acc @ qs)) \<Longrightarrow>
     spread acc qs = acc @ qs"
proof (induction qs arbitrary: acc)
  case Nil
  then show ?case by simp
next
  case (Cons q qs)
  have fresh: "fst q \<notin> fst ` set acc" using Cons.prems(1) by auto
  have "ordered_keys ((map fst acc @ [fst q]) @ map fst qs)" using Cons.prems(2) by simp
  then have "ordered_keys (map fst acc @ [fst q])" by (rule ordered_keys_prefix)
  from set_prop_last [OF fresh this]
  have step: "set_prop (fst q) (snd q) acc = acc @ [q]" by simp
  have "spread (acc @ [q]) qs = (acc @ [q]) @ qs"
    using Cons.prems by (intro Cons.IH) simp_all
  with step show ?case by simp
qed

lemma spread_nil:
  "distinct (map fst ps) \<Longrightarrow> ordered_keys (map fst ps) \<Longrightarrow> spread [] ps = ps"
  using spread_ordered [of "[]" ps] by simp

text \<open>The array indices and the other keys of a spread do not touch each other.\<close>

lemma parts_spread:
  "ordered_keys (map fst acc) \<Longrightarrow>
     index_part (spread acc qs) = spread (index_part acc) (index_part qs)
     \<and> named_part (spread acc qs) = spread (named_part acc) (named_part qs)"
proof (induction qs arbitrary: acc)
  case Nil
  then show ?case by (simp add: index_part_def named_part_def)
next
  case (Cons q qs)
  have o: "ordered_keys (map fst (set_prop (fst q) (snd q) acc))"
    by (rule ordered_set_prop [OF Cons.prems])
  show ?case
    using Cons.IH [OF o] parts_set_prop [OF Cons.prems, of "fst q" "snd q"]
    by (cases "is_array_index (fst q)") (simp_all add: index_part_def named_part_def)
qed

lemma spread_parts:
  assumes "ordered_keys (map fst acc)"
  shows "spread acc qs
           = spread (index_part acc) (index_part qs) @ spread (named_part acc) (named_part qs)"
proof -
  have "spread acc qs = index_part (spread acc qs) @ named_part (spread acc qs)"
    by (rule parts_of_ordered [OF ordered_spread [OF assms]])
  also have "\<dots> = spread (index_part acc) (index_part qs)
                   @ spread (named_part acc) (named_part qs)"
    using parts_spread [OF assms, of qs] by simp
  finally show ?thesis .
qed

text \<open>Spreading keys that are not array indices, new and pairwise different,
  appends them.\<close>

lemma spread_named_fresh:
  "\<forall>q \<in> set qs. \<not> is_array_index (fst q) \<Longrightarrow> distinct (map fst qs) \<Longrightarrow>
     fst ` set qs \<inter> fst ` set acc = {} \<Longrightarrow> spread acc qs = acc @ qs"
proof (induction qs arbitrary: acc)
  case Nil
  then show ?case by simp
next
  case (Cons q qs)
  have step: "set_prop (fst q) (snd q) acc = acc @ [q]"
    using Cons.prems by (simp add: set_prop_named_fresh)
  have "spread (acc @ [q]) qs = (acc @ [q]) @ qs"
    using Cons.prems by (intro Cons.IH) auto
  with step show ?case by simp
qed

lemma spread_named_append:
  "\<forall>q \<in> set qs. \<not> is_array_index (fst q) \<Longrightarrow> fst ` set qs \<inter> fst ` set b = {} \<Longrightarrow>
     spread (b @ acc) qs = b @ spread acc qs"
  by (induction qs arbitrary: acc) (auto simp: set_prop_named_append)

lemma spread_named_head:
  "\<forall>q \<in> set qs. \<not> is_array_index (fst q) \<Longrightarrow>
     \<exists>v rest. spread ((k, v0) # acc) qs = (k, v) # rest"
proof (induction qs arbitrary: v0 acc)
  case Nil
  then show ?case by simp
next
  case (Cons q qs)
  have "\<exists>v1 acc1. set_prop (fst q) (snd q) ((k, v0) # acc) = (k, v1) # acc1"
    using Cons.prems by (cases "fst q = k") (simp_all add: set_prop_def)
  then obtain v1 acc1 where "set_prop (fst q) (snd q) ((k, v0) # acc) = (k, v1) # acc1"
    by blast
  with Cons.IH [of v1 acc1] Cons.prems show ?case by simp
qed

text \<open>A property that reads as something other than \<^verbatim>\<open>undefined\<close> is an own property
  of an object.\<close>

lemma js_get_defined:
  assumes "js_get v k \<noteq> JUndefined"
  obtains ps where "v = JObject ps" and "map_of ps k = Some (js_get v k)"
  using assms by (cases v) (auto split: option.splits)

lemma wf_value_js_get: "wf_value v \<Longrightarrow> wf_value (js_get v k)"
proof (cases "js_get v k = JUndefined")
  case True
  then show ?thesis by simp
next
  case False
  assume wf: "wf_value v"
  from False obtain ps where v: "v = JObject ps" and g: "map_of ps k = Some (js_get v k)"
    by (rule js_get_defined)
  from g have "js_get v k \<in> snd ` set ps"
    by (metis map_of_SomeD image_eqI snd_conv)
  with wf v show ?thesis by (auto simp: list_all_iff)
qed

subsection \<open>The keys that the program writes\<close>

lemma named_keys:
  "\<not> is_array_index ''type''" "\<not> is_array_index ''name''"
  "\<not> is_array_index ''description''" "\<not> is_array_index ''inputSchema''"
  "\<not> is_array_index ''result''" "\<not> is_array_index ''tools''"
  by (simp_all add: is_array_index_def is_digit_def)

lemma ordered_index_part:
  assumes "ordered_keys (map fst ps)"
  shows "ordered_keys (map fst (index_part ps))"
proof -
  have "map fst ps = map fst (index_part ps) @ map fst (named_part ps)"
    using parts_of_ordered [OF assms] by (metis map_append)
  with assms show ?thesis by (metis ordered_keys_prefix)
qed

lemma distinct_parts:
  "distinct (map fst ps) \<Longrightarrow>
     distinct (map fst (index_part ps)) \<and> distinct (map fst (named_part ps))"
  by (simp add: index_part_def named_part_def distinct_map_filter)

text \<open>Spreading an object over a fresh \<^verbatim>\<open>type\<close>: the array indices stay in front.\<close>

lemma spread_over_new_type:
  assumes d: "distinct (map fst ps)" and o: "ordered_keys (map fst ps)"
    and t: "''type'' \<notin> fst ` set ps"
  shows "spread [(''type'', y)] ps = index_part ps @ (''type'', y) # named_part ps"
proof -
  have acc: "ordered_keys (map fst [(''type'', y)])" by (simp add: named_keys)
  have i: "spread [] (index_part ps) = index_part ps"
    using distinct_parts [OF d] ordered_index_part [OF o] by (intro spread_nil) simp_all
  have n: "spread [(''type'', y)] (named_part ps) = [(''type'', y)] @ named_part ps"
    using distinct_parts [OF d] t named_part_keys [of ps]
    by (intro spread_named_fresh) (auto simp: keys_named_part)
  from spread_parts [OF acc, of ps] i n show ?thesis
    by (simp add: index_part_def named_part_def named_keys)
qed

section \<open>\<^verbatim>\<open>normalizeInputSchema\<close>\<close>

text \<open>
  C1, as the code has it. Let a schema object hold no key \<^verbatim>\<open>type\<close>. If it holds
  \<^verbatim>\<open>properties\<close> with any value (other than \<^verbatim>\<open>undefined\<close>, which is how an absent
  property reads), \<^verbatim>\<open>normalizeInputSchema\<close> returns the object in which
  \<^verbatim>\<open>type: "object"\<close> stands before every key of the input that is not an array
  index, and behind the keys that are array indices, which JavaScript enumerates
  first; every property of the input is there, unchanged and in its order. So
  \<^verbatim>\<open>type\<close> is the first property when no key of the input is an array index. If the
  schema holds no \<^verbatim>\<open>properties\<close> either, it is returned as it is.
\<close>

theorem normalizeInputSchema_inserts_type:
  "(distinct (map fst ps) \<and> ordered_keys (map fst ps) \<and> ''type'' \<notin> fst ` set ps
      \<and> map_of ps ''properties'' = Some v \<and> v \<noteq> JUndefined
      \<longrightarrow> normalizeInputSchema (JObject ps)
            = JObject (index_part ps @ (''type'', JString ''object'') # named_part ps))
   \<and> (distinct (map fst ps) \<and> (\<forall>p \<in> set ps. \<not> is_array_index (fst p))
      \<and> ''type'' \<notin> fst ` set ps
      \<and> map_of ps ''properties'' = Some v \<and> v \<noteq> JUndefined
      \<longrightarrow> normalizeInputSchema (JObject ps) = JObject ((''type'', JString ''object'') # ps))
   \<and> (''type'' \<notin> fst ` set ps \<and> ''properties'' \<notin> fst ` set ps
      \<longrightarrow> normalizeInputSchema (JObject ps) = JObject ps)"
proof (intro conjI impI)
  assume a: "distinct (map fst ps) \<and> ordered_keys (map fst ps) \<and> ''type'' \<notin> fst ` set ps
    \<and> map_of ps ''properties'' = Some v \<and> v \<noteq> JUndefined"
  then have "spread [(''type'', JString ''object'')] ps
      = index_part ps @ (''type'', JString ''object'') # named_part ps"
    by (intro spread_over_new_type) simp_all
  with a show "normalizeInputSchema (JObject ps)
      = JObject (index_part ps @ (''type'', JString ''object'') # named_part ps)"
    by (simp add: normalizeInputSchema_def schemaNeedsNormalization_def map_of_absent)
next
  assume a: "distinct (map fst ps) \<and> (\<forall>p \<in> set ps. \<not> is_array_index (fst p))
      \<and> ''type'' \<notin> fst ` set ps
      \<and> map_of ps ''properties'' = Some v \<and> v \<noteq> JUndefined"
  then have o: "ordered_keys (map fst ps)" by (intro ordered_keys_named) simp
  from a have parts: "index_part ps = []" "named_part ps = ps"
    by (simp_all add: index_part_none named_part_all)
  from a o have "spread [(''type'', JString ''object'')] ps
      = index_part ps @ (''type'', JString ''object'') # named_part ps"
    by (intro spread_over_new_type) simp_all
  with a parts show "normalizeInputSchema (JObject ps)
      = JObject ((''type'', JString ''object'') # ps)"
    by (simp add: normalizeInputSchema_def schemaNeedsNormalization_def map_of_absent)
next
  assume "''type'' \<notin> fst ` set ps \<and> ''properties'' \<notin> fst ` set ps"
  then show "normalizeInputSchema (JObject ps) = JObject ps"
    by (simp add: normalizeInputSchema_def schemaNeedsNormalization_def map_of_absent)
qed

theorem normalizeInputSchema_inserts_type_witness:
  "normalizeInputSchema
     (JObject [(''0'', JNull), (''properties'', JObject []),
               (''required'', JArray [JString ''x''])])
   = JObject [(''0'', JNull), (''type'', JString ''object''), (''properties'', JObject []),
              (''required'', JArray [JString ''x''])]
   \<and> normalizeInputSchema
     (JObject [(''properties'', JObject []), (''required'', JArray [JString ''x''])])
   = JObject [(''type'', JString ''object''), (''properties'', JObject []),
              (''required'', JArray [JString ''x''])]
   \<and> normalizeInputSchema (JObject [(''required'', JArray [JString ''x''])])
     = JObject [(''required'', JArray [JString ''x''])]"
  using normalizeInputSchema_inserts_type
          [of "[(''0'', JNull), (''properties'', JObject []),
                (''required'', JArray [JString ''x''])]" "JObject []"]
        normalizeInputSchema_inserts_type
          [of "[(''properties'', JObject []), (''required'', JArray [JString ''x''])]" "JObject []"]
        normalizeInputSchema_inserts_type [of "[(''required'', JArray [JString ''x''])]" "JNull"]
  by (simp add: index_part_def named_part_def is_array_index_def is_digit_def index_value_def)

text \<open>
  C1 as stated fails: in the schema \<^verbatim>\<open>{properties: {}, "1": "x"}\<close> the key \<^verbatim>\<open>1\<close> is an
  array index, so it is the first property of the schema and of the object that
  \<^verbatim>\<open>{ type: "object", ...schema }\<close> builds: \<^verbatim>\<open>type\<close> is not before all existing keys.
\<close>

theorem normalizeInputSchema_type_after_index:
  "normalizeInputSchema (JObject [(''1'', JString ''x''), (''properties'', JObject [])])
     = JObject [(''1'', JString ''x''), (''type'', JString ''object''),
                (''properties'', JObject [])]"
  by (simp add: normalizeInputSchema_def schemaNeedsNormalization_def evaluate_props)

text \<open>
  C2. A schema whose \<^verbatim>\<open>type\<close> is present should come back unchanged. The test of
  line 43 is \<^verbatim>\<open>!schemaObj.type\<close>, so a \<^verbatim>\<open>type\<close> that is present and falsy (the empty
  string, \<^verbatim>\<open>null\<close>, \<^verbatim>\<open>0\<close>, \<^verbatim>\<open>false\<close>) counts as missing when \<^verbatim>\<open>properties\<close> is there:
  the schema \<^verbatim>\<open>{properties: {}, type: ""}\<close> is rebuilt with \<^verbatim>\<open>type\<close> moved to the
  front (and its value still the empty string).
\<close>

theorem normalizeInputSchema_falsy_type_reordered:
  "normalizeInputSchema (JObject [(''properties'', JObject []), (''type'', JString [])])
     = JObject [(''type'', JString []), (''properties'', JObject [])]"
  by (simp add: normalizeInputSchema_def schemaNeedsNormalization_def evaluate_props)

text \<open>A schema whose \<^verbatim>\<open>type\<close> is truthy does come back unchanged.\<close>

lemma normalizeInputSchema_truthy_type:
  "js_truthy (js_get schema ''type'') \<Longrightarrow> normalizeInputSchema schema = schema"
  by (simp add: normalizeInputSchema_def schemaNeedsNormalization_def)

text \<open>
  Normalizing a schema twice. In the first result the array indices come first, in
  order, and \<^verbatim>\<open>type\<close> is the first of the other keys; spreading that over a fresh
  \<^verbatim>\<open>type\<close> gives it back.
\<close>

lemma spread_over_type:
  assumes "distinct (map fst r)" "r = (''type'', x) # r'"
    and "\<forall>p \<in> set r. \<not> is_array_index (fst p)"
  shows "spread [(''type'', y)] r = r"
proof -
  have "spread [(''type'', x)] r' = [(''type'', x)] @ r'"
    using assms by (intro spread_named_fresh) auto
  then show ?thesis using assms by (simp add: set_prop_def)
qed

lemma respread_type:
  "spread [(''type'', y)] (spread [(''type'', z)] es) = spread [(''type'', z)] es"
proof -
  define r where "r = spread [(''type'', z)] es"
  define A where "A = spread [] (index_part es)"
  define N where "N = spread [(''type'', z)] (named_part es)"
  have acc: "ordered_keys (map fst [(''type'', w)])" for w :: js_value
    by (simp add: named_keys)
  have parts0: "index_part [(''type'', w)] = []" "named_part [(''type'', w)] = [(''type'', w)]"
    for w :: js_value
    by (simp_all add: index_part_def named_part_def named_keys)
  have r: "r = A @ N"
    unfolding r_def A_def N_def using spread_parts [OF acc, of z es] by (simp add: parts0)
  have ip: "index_part r = A" and np: "named_part r = N"
    unfolding r_def A_def N_def using parts_spread [OF acc, of z es] by (simp_all add: parts0)
  have A: "spread [] A = A"
    unfolding A_def by (intro spread_nil distinct_spread ordered_spread) simp_all
  have Nkeys: "\<forall>p \<in> set N. \<not> is_array_index (fst p)"
    using named_part_keys [of r] np by simp
  have Ndist: "distinct (map fst N)"
    unfolding N_def by (intro distinct_spread) simp
  obtain x N' where hd: "N = (''type'', x) # N'"
    unfolding N_def using spread_named_head [OF named_part_keys] by blast
  have N: "spread [(''type'', y)] N = N"
    by (rule spread_over_type [OF Ndist hd Nkeys])
  have "spread [(''type'', y)] r = spread [] (index_part r) @ spread [(''type'', y)] (named_part r)"
    using spread_parts [OF acc, of y r] by (simp add: parts0)
  also have "\<dots> = A @ N" by (simp add: ip np A N)
  finally show ?thesis using r by (simp add: r_def)
qed

lemma normalizeInputSchema_idempotent:
  "normalizeInputSchema (normalizeInputSchema s) = normalizeInputSchema s"
proof (cases "schemaNeedsNormalization s")
  case False
  then show ?thesis by (simp add: normalizeInputSchema_def)
next
  case True
  then have r: "normalizeInputSchema s
      = JObject (spread [(''type'', JString ''object'')] (own_entries s))"
    by (simp add: normalizeInputSchema_def)
  show ?thesis
    unfolding r by (simp add: normalizeInputSchema_def respread_type)
qed

lemma normalizeInputSchema_object:
  "typeof s = ''object'' \<Longrightarrow> s \<noteq> JNull \<Longrightarrow>
     typeof (normalizeInputSchema s) = ''object'' \<and> normalizeInputSchema s \<noteq> JNull
     \<and> normalizeInputSchema s \<noteq> JUndefined"
  by (cases s) (auto simp: normalizeInputSchema_def)


lemma normalizeInputSchema_default: "normalizeInputSchema default_schema = default_schema"
  by (simp add: normalizeInputSchema_def schemaNeedsNormalization_def default_schema_def)


section \<open>\<^verbatim>\<open>normalizeTool\<close>\<close>

text \<open>The loop spreads the copied entries of the tool over the three fields set before.\<close>

lemma copy_extra_fields_spread:
  "copy_extra_fields es acc = spread acc (filter is_extra_field es)"
  by (induction es arbitrary: acc) (simp_all add: assign_prop_def is_extra_field_def)

text \<open>The descriptor: the copied array indices, the three fields, the other copied
  fields.\<close>

lemma spread_over_fields:
  assumes b: "b = [(''name'', n), (''description'', c), (''inputSchema'', i)]"
    and xs: "\<forall>p \<in> set xs. is_extra_field p"
  shows "spread b xs = spread [] (index_part xs) @ b @ spread [] (named_part xs)"
proof -
  have o: "ordered_keys (map fst b)" by (simp add: b named_keys)
  have parts: "index_part b = []" "named_part b = b"
    by (simp_all add: b index_part_def named_part_def named_keys)
  have "fst ` set (named_part xs) \<inter> fst ` set b = {}"
    using xs by (auto simp: b is_extra_field_def named_part_def)
  from spread_named_append [OF named_part_keys this, of "[]"]
  have "spread b (named_part xs) = b @ spread [] (named_part xs)" by simp
  with spread_parts [OF o, of xs] show ?thesis by (simp add: parts)
qed

lemma extra_fields_spread:
  "\<forall>p \<in> set xs. is_extra_field p \<Longrightarrow> \<forall>p \<in> set (spread [] xs). is_extra_field p"
proof
  fix p assume xs: "\<forall>p \<in> set xs. is_extra_field p" and p: "p \<in> set (spread [] xs)"
  from p have "fst p \<in> fst ` set (spread [] xs)" by simp
  then have "fst p \<in> fst ` set xs" by (simp add: keys_spread)
  with xs show "is_extra_field p" by (auto simp: is_extra_field_def)
qed

text \<open>What a successful call returns, and what it has checked.\<close>

lemma normalizeTool_Inr:
  assumes "normalizeTool t = Inr d"
  shows "d = JObject (spread [(''name'', js_get t ''name''),
                       (''description'', if typeof (js_get t ''description'') = ''string''
                                         then js_get t ''description'' else JUndefined),
                       (''inputSchema'', if js_get t ''inputSchema'' \<noteq> JUndefined
                                         then normalizeInputSchema (js_get t ''inputSchema'')
                                         else default_schema)]
                      (filter is_extra_field (own_entries t)))"
    and "typeof t = ''object''" and "t \<noteq> JNull" and "typeof (js_get t ''name'') = ''string''"
    and "js_get t ''inputSchema'' \<noteq> JUndefined \<Longrightarrow>
           typeof (js_get t ''inputSchema'') = ''object'' \<and> js_get t ''inputSchema'' \<noteq> JNull"
  using assms
  by (auto simp: normalizeTool_def Let_def copy_extra_fields_spread set_prop_def
           split: if_splits)

lemma map_of_normalizeTool:
  assumes "normalizeTool t = Inr d"
  shows "map_of (own_entries d) ''inputSchema''
           = Some (if js_get t ''inputSchema'' \<noteq> JUndefined
                   then normalizeInputSchema (js_get t ''inputSchema'') else default_schema)"
    and "map_of (own_entries d) ''description''
           = Some (if typeof (js_get t ''description'') = ''string''
                   then js_get t ''description'' else JUndefined)"
    and "map_of (own_entries d) ''name'' = Some (js_get t ''name'')"
proof -
  define b where "b = [(''name'', js_get t ''name''),
      (''description'', if typeof (js_get t ''description'') = ''string''
                        then js_get t ''description'' else JUndefined),
      (''inputSchema'', if js_get t ''inputSchema'' \<noteq> JUndefined
                        then normalizeInputSchema (js_get t ''inputSchema'')
                        else default_schema)]"
  define xs where "xs = filter is_extra_field (own_entries t)"
  have d: "own_entries d = spread b xs"
    using normalizeTool_Inr(1) [OF assms] by (simp add: b_def xs_def)
  have fresh: "''name'' \<notin> fst ` set xs" "''description'' \<notin> fst ` set xs"
    "''inputSchema'' \<notin> fst ` set xs"
    by (auto simp: xs_def is_extra_field_def)
  show "map_of (own_entries d) ''inputSchema''
           = Some (if js_get t ''inputSchema'' \<noteq> JUndefined
                   then normalizeInputSchema (js_get t ''inputSchema'') else default_schema)"
    unfolding d map_of_spread_other [OF fresh(3)] by (simp add: b_def)
  show "map_of (own_entries d) ''description''
           = Some (if typeof (js_get t ''description'') = ''string''
                   then js_get t ''description'' else JUndefined)"
    unfolding d map_of_spread_other [OF fresh(2)] by (simp add: b_def)
  show "map_of (own_entries d) ''name'' = Some (js_get t ''name'')"
    unfolding d map_of_spread_other [OF fresh(1)] by (simp add: b_def)
qed

lemma js_get_normalizeTool:
  assumes "normalizeTool t = Inr d"
  shows "js_get d ''inputSchema'' = (if js_get t ''inputSchema'' \<noteq> JUndefined
                                     then normalizeInputSchema (js_get t ''inputSchema'')
                                     else default_schema)"
    and "js_get d ''description'' = (if typeof (js_get t ''description'') = ''string''
                                     then js_get t ''description'' else JUndefined)"
    and "js_get d ''name'' = js_get t ''name''"
proof -
  obtain ps where d: "d = JObject ps"
    using normalizeTool_Inr(1) [OF assms] by blast
  from map_of_normalizeTool [OF assms]
  show "js_get d ''inputSchema'' = (if js_get t ''inputSchema'' \<noteq> JUndefined
                                     then normalizeInputSchema (js_get t ''inputSchema'')
                                     else default_schema)"
    and "js_get d ''description'' = (if typeof (js_get t ''description'') = ''string''
                                     then js_get t ''description'' else JUndefined)"
    and "js_get d ''name'' = js_get t ''name''"
    by (simp_all add: d)
qed

text \<open>
  C4, as the code has it. \<^verbatim>\<open>normalizeTool\<close> throws exactly when its input is not an
  object (or is \<^verbatim>\<open>null\<close>), or has no string \<^verbatim>\<open>name\<close>, or has an \<^verbatim>\<open>inputSchema\<close> that
  is present and is not an object (or is \<^verbatim>\<open>null\<close>); what it throws is an \<^verbatim>\<open>Error\<close>
  with a message. So every object with a string \<^verbatim>\<open>name\<close> whose \<^verbatim>\<open>inputSchema\<close> is absent
  or a non-null object yields a descriptor.
\<close>

theorem normalizeTool_throws_iff:
  "((\<exists>e. normalizeTool t = Inl e) \<longleftrightarrow>
      (typeof t \<noteq> ''object'' \<or> t = JNull
       \<or> typeof (js_get t ''name'') \<noteq> ''string''
       \<or> (js_get t ''inputSchema'' \<noteq> JUndefined
           \<and> (typeof (js_get t ''inputSchema'') \<noteq> ''object''
               \<or> js_get t ''inputSchema'' = JNull))))
   \<and> (normalizeTool t = Inl e \<longrightarrow> (\<exists>m. e = Error m))"
  by (auto simp: normalizeTool_def Let_def split: if_splits)

theorem normalizeTool_throws_iff_witness:
  "normalizeTool (JObject [(''name'', JString ''t'')])
     = Inr (JObject [(''name'', JString ''t''), (''description'', JUndefined),
                     (''inputSchema'', default_schema)])
   \<and> (\<exists>e. normalizeTool (JObject [(''name'', JString ''t''), (''inputSchema'', JNull)]) = Inl e)"
  using normalizeTool_throws_iff [of "JObject [(''name'', JString ''t'')]"]
        normalizeTool_throws_iff [of "JObject [(''name'', JString ''t''), (''inputSchema'', JNull)]"]
  by (simp add: normalizeTool_def set_prop_def)

text \<open>
  C4 as stated fails: the tool \<^verbatim>\<open>{name: "t", inputSchema: 5}\<close> is an object with a
  string \<^verbatim>\<open>name\<close>, and \<^verbatim>\<open>normalizeTool\<close> throws on it (lines 103 to 110).
\<close>

theorem normalizeTool_named_object_throws:
  "typeof (JObject [(''name'', JString ''t''), (''inputSchema'', JNumber 5)]) = ''object''
   \<and> JObject [(''name'', JString ''t''), (''inputSchema'', JNumber 5)] \<noteq> JNull
   \<and> typeof (js_get (JObject [(''name'', JString ''t''), (''inputSchema'', JNumber 5)]) ''name'')
       = ''string''
   \<and> normalizeTool (JObject [(''name'', JString ''t''), (''inputSchema'', JNumber 5)])
       = Inl (Error (''Invalid tool '' @ [CHR 0x27] @ ''t'' @ [CHR 0x27]
                     @ '': inputSchema must be an object''))"
  by (simp add: normalizeTool_def)




text \<open>
  C10. When \<^verbatim>\<open>normalizeTool\<close> returns a descriptor for a tool whose \<^verbatim>\<open>description\<close>
  is not a string, the descriptor holds the property \<^verbatim>\<open>description\<close> with the value
  \<^verbatim>\<open>undefined\<close>: the value that came in is dropped, the loop over the other fields
  does not bring it back.
\<close>

theorem normalizeTool_drops_description:
  "normalizeTool t = Inr d \<Longrightarrow> typeof (js_get t ''description'') \<noteq> ''string'' \<Longrightarrow>
     js_get d ''description'' = JUndefined
     \<and> map_of (own_entries d) ''description'' = Some JUndefined"
proof -
  assume r: "normalizeTool t = Inr d" and n: "typeof (js_get t ''description'') \<noteq> ''string''"
  show ?thesis
    using js_get_normalizeTool(2) [OF r] map_of_normalizeTool(2) [OF r] n by simp
qed

theorem normalizeTool_drops_description_witness:
  "normalizeTool (JObject [(''name'', JString ''t''), (''description'', JNumber 7)])
     = Inr (JObject [(''name'', JString ''t''), (''description'', JUndefined),
                     (''inputSchema'', default_schema)])
   \<and> js_get (JObject [(''name'', JString ''t''), (''description'', JUndefined),
                     (''inputSchema'', default_schema)]) ''description'' = JUndefined"
proof -
  have r: "normalizeTool (JObject [(''name'', JString ''t''), (''description'', JNumber 7)])
     = Inr (JObject [(''name'', JString ''t''), (''description'', JUndefined),
                     (''inputSchema'', default_schema)])"
    by (simp add: normalizeTool_def set_prop_def)
  have n: "typeof (js_get (JObject [(''name'', JString ''t''), (''description'', JNumber 7)])
             ''description'') \<noteq> ''string''"
    by simp
  from normalizeTool_drops_description [OF r n] r show ?thesis by simp
qed

text \<open>A descriptor that \<^verbatim>\<open>normalizeTool\<close> returned is normalized to itself.\<close>

lemma normalizeTool_idem:
  assumes "normalizeTool t = Inr d"
  shows "normalizeTool d = Inr d"
proof -
  define n where "n = js_get t ''name''"
  define dsc where "dsc = (if typeof (js_get t ''description'') = ''string''
                           then js_get t ''description'' else JUndefined)"
  define S where "S = (if js_get t ''inputSchema'' \<noteq> JUndefined
                       then normalizeInputSchema (js_get t ''inputSchema'') else default_schema)"
  define b where "b = [(''name'', n), (''description'', dsc), (''inputSchema'', S)]"
  define xs where "xs = filter is_extra_field (own_entries t)"
  define A where "A = spread [] (index_part xs)"
  define B where "B = spread [] (named_part xs)"
  define L where "L = A @ b @ B"
  have xs: "\<forall>p \<in> set xs. is_extra_field p" by (simp add: xs_def)
  have d0: "d = JObject (spread b xs)"
    using normalizeTool_Inr(1) [OF assms] by (simp add: n_def dsc_def S_def xs_def b_def)
  have L: "spread b xs = L"
    unfolding L_def A_def B_def by (rule spread_over_fields [OF b_def xs])
  have d: "d = JObject L" using d0 L by simp
  have n: "typeof n = ''string''"
    using normalizeTool_Inr(4) [OF assms] by (simp add: n_def)
  have dsc: "typeof dsc \<noteq> ''string'' \<Longrightarrow> dsc = JUndefined"
    by (simp add: dsc_def split: if_splits)
  have S: "typeof S = ''object'' \<and> S \<noteq> JNull \<and> S \<noteq> JUndefined \<and> normalizeInputSchema S = S"
  proof (cases "js_get t ''inputSchema'' \<noteq> JUndefined")
    case True
    with normalizeTool_Inr(5) [OF assms] normalizeInputSchema_object [of "js_get t ''inputSchema''"]
    show ?thesis by (simp add: S_def normalizeInputSchema_idempotent)
  next
    case False
    then have "S = default_schema" by (simp add: S_def)
    then show ?thesis
      using normalizeInputSchema_default by (simp add: default_schema_def)
  qed
  have get: "map_of L ''name'' = Some n" "map_of L ''description'' = Some dsc"
    "map_of L ''inputSchema'' = Some S"
    using map_of_normalizeTool [OF assms] by (simp_all add: d n_def dsc_def S_def)
  have Aex: "\<forall>p \<in> set A. is_extra_field p"
    unfolding A_def using xs by (intro extra_fields_spread) (simp add: index_part_def)
  have Bex: "\<forall>p \<in> set B. is_extra_field p"
    unfolding B_def using xs by (intro extra_fields_spread) (simp add: named_part_def)
  have Aidx: "\<forall>p \<in> set A. is_array_index (fst p)"
  proof
    fix p assume "p \<in> set A"
    then have "fst p \<in> fst ` set (spread [] (index_part xs))" by (simp add: A_def)
    then show "is_array_index (fst p)" by (auto simp: keys_spread index_part_def)
  qed
  have Bnmd: "\<forall>p \<in> set B. \<not> is_array_index (fst p)"
  proof
    fix p assume "p \<in> set B"
    then have "fst p \<in> fst ` set (spread [] (named_part xs))" by (simp add: B_def)
    then show "\<not> is_array_index (fst p)" by (auto simp: keys_spread named_part_def)
  qed
  have A: "spread [] A = A"
    unfolding A_def by (intro spread_nil distinct_spread ordered_spread) simp_all
  have B: "spread [] B = B"
    unfolding B_def by (intro spread_nil distinct_spread ordered_spread) simp_all
  have filt: "filter is_extra_field L = A @ B"
    using Aex Bex by (simp add: L_def b_def is_extra_field_def)
  have parts: "index_part (A @ B) = A" "named_part (A @ B) = B"
    using Aidx Bnmd
    by (simp_all add: index_part_append named_part_append index_part_all index_part_none
          named_part_all named_part_none)
  have AB: "\<forall>p \<in> set (A @ B). is_extra_field p" using Aex Bex by auto
  have "copy_extra_fields L b = spread b (filter is_extra_field L)"
    by (rule copy_extra_fields_spread)
  also have "\<dots> = spread b (A @ B)" by (simp only: filt)
  also have "\<dots> = spread [] (index_part (A @ B)) @ b @ spread [] (named_part (A @ B))"
    by (rule spread_over_fields [OF b_def AB])
  also have "\<dots> = L" by (simp only: parts A B L_def)
  finally have copy: "copy_extra_fields L b = L" .
  have setp: "set_prop ''inputSchema'' S
      [(''name'', n), (''description'', dsc), (''inputSchema'', JObject [])] = b"
    by (simp add: set_prop_def b_def)
  show ?thesis
    unfolding d using n dsc S copy get setp
    by (cases "typeof dsc = ''string''") (simp_all add: normalizeTool_def)
qed

section \<open>\<^verbatim>\<open>normalizeTools\<close>\<close>

lemma map_throwing_Cons_Inr:
  "map_throwing f (x # xs) = Inr ys \<longleftrightarrow>
     (\<exists>y ys'. ys = y # ys' \<and> f x = Inr y \<and> map_throwing f xs = Inr ys')"
  by (cases "f x"; cases "map_throwing f xs") auto

lemma map_throwing_Inr_iff:
  "map_throwing f xs = Inr ys \<longleftrightarrow> list_all2 (\<lambda>x y. f x = Inr y) xs ys"
proof (induction xs arbitrary: ys)
  case Nil
  then show ?case by auto
next
  case (Cons x xs)
  show ?case
    unfolding map_throwing_Cons_Inr list_all2_Cons1 Cons.IH by auto
qed

text \<open>
  C7. On a value that is not an array \<^verbatim>\<open>normalizeTools\<close> returns the empty list and
  does not throw. On an array it returns the list \<open>ds\<close> exactly when \<open>ds\<close> is as long
  as the array and its \<open>i\<close>-th element is what \<^verbatim>\<open>normalizeTool\<close> returns for the
  \<open>i\<close>-th element of the array.
\<close>

theorem normalizeTools_elementwise:
  "(\<not> isArray v \<longrightarrow> normalizeTools v = Inr [])
   \<and> (normalizeTools (JArray ts) = Inr ds \<longleftrightarrow>
        length ds = length ts \<and> (\<forall>i < length ts. normalizeTool (ts ! i) = Inr (ds ! i)))"
  by (auto simp: normalizeTools_def map_throwing_Inr_iff list_all2_conv_all_nth)

theorem normalizeTools_elementwise_witness:
  "normalizeTools (JObject [(''tools'', JArray [])]) = Inr []
   \<and> normalizeTools (JArray [JObject [(''name'', JString ''a'')], JObject [(''name'', JString ''b'')]])
     = Inr [JObject [(''name'', JString ''a''), (''description'', JUndefined),
                     (''inputSchema'', default_schema)],
            JObject [(''name'', JString ''b''), (''description'', JUndefined),
                     (''inputSchema'', default_schema)]]"
  using normalizeTools_elementwise [of "JObject [(''tools'', JArray [])]"
      "[JObject [(''name'', JString ''a'')], JObject [(''name'', JString ''b'')]]"
      "[JObject [(''name'', JString ''a''), (''description'', JUndefined),
                     (''inputSchema'', default_schema)],
            JObject [(''name'', JString ''b''), (''description'', JUndefined),
                     (''inputSchema'', default_schema)]]"]
  by (simp add: normalizeTools_def normalizeTool_def set_prop_def)

lemma map_throwing_normalizeTool_idem:
  "map_throwing normalizeTool ts = Inr ds \<Longrightarrow> map_throwing normalizeTool ds = Inr ds"
proof (induction ts arbitrary: ds)
  case Nil
  then show ?case by auto
next
  case (Cons t ts)
  then show ?case
    by (auto split: sum.splits simp: normalizeTool_idem)
qed

section \<open>\<^verbatim>\<open>normalizeToolsListResponse\<close>\<close>

text \<open>The rewritten response, field by field.\<close>

lemma rewritten_response_frame:
  assumes dps: "distinct (map fst ps)" and ops: "ordered_keys (map fst ps)"
    and drs: "distinct (map fst rs)" and ors: "ordered_keys (map fst rs)"
    and res: "map_of ps ''result'' = Some (JObject rs)"
    and tools: "map_of rs ''tools'' = Some t"
    and r': "r' = JObject (set_prop ''result''
                    (JObject (set_prop ''tools'' (JArray ds) (spread [] rs))) (spread [] ps))"
  shows "map fst (own_entries r') = map fst ps"
    and "k \<noteq> ''result'' \<Longrightarrow> js_get r' k = js_get (JObject ps) k"
    and "map fst (own_entries (js_get r' ''result'')) = map fst rs"
    and "k \<noteq> ''tools'' \<Longrightarrow> js_get (js_get r' ''result'') k = js_get (JObject rs) k"
    and "js_get (js_get r' ''result'') ''tools'' = JArray ds"
  using map_of_Some_key [OF res] map_of_Some_key [OF tools]
  by (simp_all add: r' spread_nil [OF dps ops] spread_nil [OF drs ors] map_fst_set_prop
        map_of_set_prop_same map_of_set_prop_other)

text \<open>
  C6. \<^verbatim>\<open>normalizeToolsListResponse\<close> returns its argument as it is when the argument
  is not an object, or has an \<^verbatim>\<open>error\<close> field, or has a \<^verbatim>\<open>result\<close> that is not an
  object, or a \<^verbatim>\<open>result.tools\<close> that is not an array. Whenever it returns, for a
  response that JavaScript built (\<open>wf_value\<close>), the result has the keys of the
  response in their order and the value of every top-level field other than
  \<^verbatim>\<open>result\<close>, and its \<^verbatim>\<open>result\<close> has the keys of the response's \<^verbatim>\<open>result\<close> in their
  order and the value of every field of it other than \<^verbatim>\<open>tools\<close>.
\<close>

theorem normalizeToolsListResponse_passthrough:
  "((typeof r \<noteq> ''object'' \<or> r = JNull \<or> js_get r ''error'' \<noteq> JUndefined
       \<or> typeof (js_get r ''result'') \<noteq> ''object'' \<or> js_get r ''result'' = JNull
       \<or> \<not> isArray (js_get (js_get r ''result'') ''tools''))
      \<longrightarrow> normalizeToolsListResponse r = Inr r)
   \<and> (wf_value r \<and> normalizeToolsListResponse r = Inr r' \<longrightarrow>
        map fst (own_entries r') = map fst (own_entries r)
        \<and> (\<forall>k. k \<noteq> ''result'' \<longrightarrow> js_get r' k = js_get r k)
        \<and> map fst (own_entries (js_get r' ''result''))
            = map fst (own_entries (js_get r ''result''))
        \<and> (\<forall>k. k \<noteq> ''tools'' \<longrightarrow>
              js_get (js_get r' ''result'') k = js_get (js_get r ''result'') k))"
proof (rule conjI; rule impI)
  assume "typeof r \<noteq> ''object'' \<or> r = JNull \<or> js_get r ''error'' \<noteq> JUndefined
       \<or> typeof (js_get r ''result'') \<noteq> ''object'' \<or> js_get r ''result'' = JNull
       \<or> \<not> isArray (js_get (js_get r ''result'') ''tools'')"
  then show "normalizeToolsListResponse r = Inr r"
    by (auto simp: normalizeToolsListResponse_def Let_def)
next
  assume a: "wf_value r \<and> normalizeToolsListResponse r = Inr r'"
  show "map fst (own_entries r') = map fst (own_entries r)
        \<and> (\<forall>k. k \<noteq> ''result'' \<longrightarrow> js_get r' k = js_get r k)
        \<and> map fst (own_entries (js_get r' ''result''))
            = map fst (own_entries (js_get r ''result''))
        \<and> (\<forall>k. k \<noteq> ''tools'' \<longrightarrow>
              js_get (js_get r' ''result'') k = js_get (js_get r ''result'') k)"
  proof (cases "r' = r")
    case True
    then show ?thesis by simp
  next
    case False
    with a obtain ds where arr: "isArray (js_get (js_get r ''result'') ''tools'')"
      and r': "r' = JObject (set_prop ''result''
                    (JObject (set_prop ''tools'' (JArray ds)
                       (spread [] (own_entries (js_get r ''result'')))))
                    (spread [] (own_entries r)))"
      by (auto simp: normalizeToolsListResponse_def Let_def split: if_splits sum.splits)
    from arr have t: "js_get (js_get r ''result'') ''tools'' \<noteq> JUndefined" by auto
    then obtain rs where rs: "js_get r ''result'' = JObject rs"
      and tools: "map_of rs ''tools'' = Some (js_get (js_get r ''result'') ''tools'')"
      by (rule js_get_defined)
    from rs have "js_get r ''result'' \<noteq> JUndefined" by simp
    then obtain ps where ps: "r = JObject ps"
      and res: "map_of ps ''result'' = Some (js_get r ''result'')"
      by (rule js_get_defined)
    from a ps have dps: "distinct (map fst ps)" and ops: "ordered_keys (map fst ps)"
      by simp_all
    from a wf_value_js_get [of r "''result''"] rs
    have drs: "distinct (map fst rs)" and ors: "ordered_keys (map fst rs)" by simp_all
    have e1: "own_entries r = ps" using ps by simp
    have e2: "own_entries (js_get r ''result'') = rs" using rs by simp
    note f = rewritten_response_frame
               [OF dps ops drs ors res [unfolded rs] tools r' [unfolded e1 e2]]
    show ?thesis
      unfolding e1 e2 using f(1) f(2) [folded ps] f(3) f(4) [folded rs] by blast
  qed
qed

theorem normalizeToolsListResponse_passthrough_witness:
  "normalizeToolsListResponse
     (JObject [(''id'', JNumber 1), (''error'', JObject [(''code'', JNumber 5)]),
               (''result'', JObject [(''tools'', JArray [JNull])])])
     = Inr (JObject [(''id'', JNumber 1), (''error'', JObject [(''code'', JNumber 5)]),
                     (''result'', JObject [(''tools'', JArray [JNull])])])
   \<and> normalizeToolsListResponse (JObject [(''meta'', JString ''m''),
       (''result'', JObject [(''tools'', JArray [JObject [(''name'', JString ''t'')]]),
                             (''nextCursor'', JString ''c'')]), (''id'', JNumber 1)])
     = Inr (JObject [(''meta'', JString ''m''),
       (''result'', JObject [(''tools'', JArray [JObject [(''name'', JString ''t''),
                                 (''description'', JUndefined), (''inputSchema'', default_schema)]]),
                             (''nextCursor'', JString ''c'')]), (''id'', JNumber 1)])
   \<and> js_get (JObject [(''meta'', JString ''m''),
       (''result'', JObject [(''tools'', JArray [JObject [(''name'', JString ''t''),
                                 (''description'', JUndefined), (''inputSchema'', default_schema)]]),
                             (''nextCursor'', JString ''c'')]), (''id'', JNumber 1)]) ''meta''
     = JString ''m''"
  using normalizeToolsListResponse_passthrough
     [of "JObject [(''id'', JNumber 1), (''error'', JObject [(''code'', JNumber 5)]),
       (''result'', JObject [(''tools'', JArray [JNull])])]"]
    normalizeToolsListResponse_passthrough
     [of "JObject [(''meta'', JString ''m''),
       (''result'', JObject [(''tools'', JArray [JObject [(''name'', JString ''t'')]]),
                             (''nextCursor'', JString ''c'')]), (''id'', JNumber 1)]"
       "JObject [(''meta'', JString ''m''),
       (''result'', JObject [(''tools'', JArray [JObject [(''name'', JString ''t''),
                                 (''description'', JUndefined), (''inputSchema'', default_schema)]]),
                             (''nextCursor'', JString ''c'')]), (''id'', JNumber 1)]"]
  by (simp add: normalizeToolsListResponse_def normalizeTools_def normalizeTool_def
        evaluate_props)

text \<open>A response that was rewritten is rewritten to itself.\<close>

lemma rewritten_response_fixed:
  assumes ds: "map_throwing normalizeTool ds = Inr ds"
    and Q: "Q = set_prop ''tools'' (JArray ds) (spread [] rs)"
    and P: "P = set_prop ''result'' (JObject Q) (spread [] ps)"
  shows "normalizeToolsListResponse (JObject P) = Inr (JObject P)"
proof -
  have sQ: "spread [] Q = Q" unfolding Q
    by (intro spread_nil distinct_set_prop ordered_set_prop distinct_spread ordered_spread)
       simp_all
  have sP: "spread [] P = P" unfolding P
    by (intro spread_nil distinct_set_prop ordered_set_prop distinct_spread ordered_spread)
       simp_all
  have gQ: "map_of Q ''tools'' = Some (JArray ds)"
    unfolding Q by (rule map_of_set_prop_same)
  have gP: "map_of P ''result'' = Some (JObject Q)"
    unfolding P by (rule map_of_set_prop_same)
  have iQ: "set_prop ''tools'' (JArray ds) Q = Q"
    unfolding Q by (rule set_prop_idem)
  have iP: "set_prop ''result'' (JObject Q) P = P"
    unfolding P by (rule set_prop_idem)
  show ?thesis
    by (simp add: normalizeToolsListResponse_def normalizeTools_def gP gQ ds sQ sP iQ iP)
qed

text \<open>
  C3. Normalization is idempotent. For every value \<open>s\<close>, normalizing the normalized
  schema gives the normalized schema. For every response \<open>r\<close>, applying
  \<^verbatim>\<open>normalizeToolsListResponse\<close> to its own result gives the outcome of the first
  application: the same response, or the same throw when the first application
  throws.
\<close>

theorem normalization_idempotent:
  "normalizeInputSchema (normalizeInputSchema s) = normalizeInputSchema s
   \<and> twice normalizeToolsListResponse r = normalizeToolsListResponse r"
proof
  show "normalizeInputSchema (normalizeInputSchema s) = normalizeInputSchema s"
    by (rule normalizeInputSchema_idempotent)
next
  show "twice normalizeToolsListResponse r = normalizeToolsListResponse r"
  proof (cases "normalizeToolsListResponse r")
    case (Inl e)
    then show ?thesis by (simp add: twice_def)
  next
    case (Inr r')
    show ?thesis
    proof (cases "r' = r")
      case True
      with Inr show ?thesis by (simp add: twice_def)
    next
      case False
      with Inr obtain ds
        where ds: "normalizeTools (js_get (js_get r ''result'') ''tools'') = Inr ds"
        and arr: "isArray (js_get (js_get r ''result'') ''tools'')"
        and r': "r' = JObject (set_prop ''result''
                    (JObject (set_prop ''tools'' (JArray ds)
                       (spread [] (own_entries (js_get r ''result'')))))
                    (spread [] (own_entries r)))"
        by (auto simp: normalizeToolsListResponse_def Let_def split: if_splits sum.splits)
      from arr obtain ts where ts: "js_get (js_get r ''result'') ''tools'' = JArray ts"
        by (cases "js_get (js_get r ''result'') ''tools''") auto
      with ds have "map_throwing normalizeTool ts = Inr ds"
        by (simp add: normalizeTools_def)
      then have "map_throwing normalizeTool ds = Inr ds"
        by (rule map_throwing_normalizeTool_idem)
      from rewritten_response_fixed [OF this refl refl]
      have "normalizeToolsListResponse r' = Inr r'" unfolding r' .
      with Inr show ?thesis by (simp add: twice_def)
    qed
  qed
qed

theorem normalization_idempotent_witness:
  "normalizeInputSchema (normalizeInputSchema (JObject [(''properties'', JObject [])]))
     = JObject [(''type'', JString ''object''), (''properties'', JObject [])]
   \<and> twice normalizeToolsListResponse
       (JObject [(''id'', JNumber 1),
                 (''result'', JObject [(''tools'', JArray [JObject
                    [(''name'', JString ''t''),
                     (''inputSchema'', JObject [(''properties'', JObject [])])]])])])
     = Inr (JObject [(''id'', JNumber 1),
                 (''result'', JObject [(''tools'', JArray [JObject
                    [(''name'', JString ''t''), (''description'', JUndefined),
                     (''inputSchema'', JObject [(''type'', JString ''object''),
                                               (''properties'', JObject [])])]])])])"
  using normalization_idempotent [of "JObject [(''properties'', JObject [])]"
      "JObject [(''id'', JNumber 1),
                 (''result'', JObject [(''tools'', JArray [JObject
                    [(''name'', JString ''t''),
                     (''inputSchema'', JObject [(''properties'', JObject [])])]])])]"]
  by (simp add: normalizeInputSchema_def schemaNeedsNormalization_def
        normalizeToolsListResponse_def normalizeTools_def normalizeTool_def assign_prop_def
        evaluate_props)

section \<open>The message endpoint\<close>

text \<open>A template literal inserts a string as it is.\<close>

lemma template_string: "template toString (JString m) = Inr m"
  by (simp add: template_def)

text \<open>
  C8, as the code has it. Let a message be an object addressed to a registered
  session. If its method is truthy (a string: not empty), is neither \<^verbatim>\<open>tools/list\<close>
  nor \<^verbatim>\<open>tools/call\<close>, and the template literal of line 229 turns it into a text
  (every string is its own text), then all the handler does is reply with status
  501 and the JSON-RPC error \<open>-32601\<close>, \<^verbatim>\<open>Method not implemented\<close>: no upstream call, no
  write to the stream of the session. If its method is falsy, all the handler does
  is reply with status 400 and the JSON-RPC error \<open>-32600\<close>, \<^verbatim>\<open>Missing method field\<close>.
  And for every message whose method is none of the two, whatever the session and
  the rest of the message, all the handler does is one reply with an error status,
  as long as the template literal does not throw.
\<close>

theorem unhandled_method_not_implemented:
  "(cid \<noteq> [] \<and> connections cid = Some connection
      \<and> typeof message = ''object'' \<and> js_truthy message
      \<and> js_truthy (js_get message ''method'')
      \<and> js_get message ''method'' \<noteq> JString ''tools/list''
      \<and> js_get message ''method'' \<noteq> JString ''tools/call''
      \<and> template toString (js_get message ''method'') = Inr text
    \<longrightarrow> post_message toString connections (Some cid) message =
          [Respond 501 (JObject
             [(''jsonrpc'', JString ''2.0''),
              (''error'', JObject
                 [(''code'', JNumber (- 32601)),
                  (''message'', JString (''Method not implemented: '' @ text))]),
              (''id'', or_null (js_get message ''id''))])])
   \<and> (cid \<noteq> [] \<and> connections cid = Some connection
      \<and> typeof message = ''object'' \<and> js_truthy message
      \<and> \<not> js_truthy (js_get message ''method'')
    \<longrightarrow> post_message toString connections (Some cid) message =
          [Respond 400 (JObject
             [(''jsonrpc'', JString ''2.0''),
              (''error'', JObject
                 [(''code'', JNumber (- 32600)),
                  (''message'', JString ''Missing method field'')]),
              (''id'', or_null (js_get message ''id''))])])
   \<and> (js_get message ''method'' \<noteq> JString ''tools/list''
      \<and> js_get message ''method'' \<noteq> JString ''tools/call''
      \<and> (js_truthy (js_get message ''method'')
            \<longrightarrow> template toString (js_get message ''method'') = Inr text)
    \<longrightarrow> (\<exists>status body. post_message toString connections clientId message = [Respond status body]
           \<and> 400 \<le> status))"
  by (auto simp: post_message_def dispatch_def invalid_request_def split: option.splits)

theorem unhandled_method_not_implemented_witness:
  "post_message (\<lambda>v. Inr ''[object Object]'')
     [''c1'' \<mapsto> \<lparr>mcpClient = \<lparr>listTools = Inr [(''tools'', JArray [])],
                                callTool = (\<lambda>p. Inr JNull)\<rparr>,
                  messageQueue = []\<rparr>]
     (Some ''c1'')
     (JObject [(''jsonrpc'', JString ''2.0''), (''id'', JNumber 7),
               (''method'', JString ''foo/bar'')])
   = [Respond 501 (JObject
        [(''jsonrpc'', JString ''2.0''),
         (''error'', JObject
            [(''code'', JNumber (- 32601)),
             (''message'', JString ''Method not implemented: foo/bar'')]),
         (''id'', JNumber 7)])]
   \<and> post_message (\<lambda>v. Inr ''[object Object]'')
     [''c1'' \<mapsto> \<lparr>mcpClient = \<lparr>listTools = Inr [(''tools'', JArray [])],
                                callTool = (\<lambda>p. Inr JNull)\<rparr>,
                  messageQueue = []\<rparr>]
     (Some ''c1'')
     (JObject [(''jsonrpc'', JString ''2.0''), (''method'', JNumber 0)])
   = [Respond 400 (JObject
        [(''jsonrpc'', JString ''2.0''),
         (''error'', JObject
            [(''code'', JNumber (- 32600)),
             (''message'', JString ''Missing method field'')]),
         (''id'', JNull)])]"
  using unhandled_method_not_implemented
    [of "''c1''"
        "[''c1'' \<mapsto> \<lparr>mcpClient = \<lparr>listTools = Inr [(''tools'', JArray [])],
                                   callTool = (\<lambda>p. Inr JNull)\<rparr>,
                  messageQueue = []\<rparr>]"
        "\<lparr>mcpClient = \<lparr>listTools = Inr [(''tools'', JArray [])], callTool = (\<lambda>p. Inr JNull)\<rparr>,
                  messageQueue = []\<rparr>"
        "JObject [(''jsonrpc'', JString ''2.0''), (''id'', JNumber 7),
                  (''method'', JString ''foo/bar'')]"
        "\<lambda>v. Inr ''[object Object]''" "''foo/bar''"]
    unhandled_method_not_implemented
    [of "''c1''"
        "[''c1'' \<mapsto> \<lparr>mcpClient = \<lparr>listTools = Inr [(''tools'', JArray [])],
                                   callTool = (\<lambda>p. Inr JNull)\<rparr>,
                  messageQueue = []\<rparr>]"
        "\<lparr>mcpClient = \<lparr>listTools = Inr [(''tools'', JArray [])], callTool = (\<lambda>p. Inr JNull)\<rparr>,
                  messageQueue = []\<rparr>"
        "JObject [(''jsonrpc'', JString ''2.0''), (''method'', JNumber 0)]"
        "\<lambda>v. Inr ''[object Object]''"]
  by (simp add: template_def or_null_def)

text \<open>
  C8 as stated fails, at two messages whose method is neither \<^verbatim>\<open>tools/list\<close> nor
  \<^verbatim>\<open>tools/call\<close>. For \<^verbatim>\<open>{jsonrpc: "2.0", id: 7, method: ""}\<close> the reply is not the
  not-implemented one but status 400 with error \<open>-32600\<close>, \<^verbatim>\<open>Missing method field\<close> (the
  test \<^verbatim>\<open>!message.method\<close> of line 182). For \<^verbatim>\<open>{jsonrpc: "2.0", id: 7, method:
  {toString: 1}}\<close> the template literal of line 229 throws a \<^verbatim>\<open>TypeError\<close>, the method
  having no callable \<^verbatim>\<open>toString\<close>; the literal stands inside the \<^verbatim>\<open>try\<close>, so the
  \<^verbatim>\<open>catch\<close> block writes to the stream of the session and replies with status 500.
  (The message of the \<^verbatim>\<open>TypeError\<close> differs between engines; the run below takes
  one.)
\<close>

theorem unhandled_method_other_replies:
  "post_message (\<lambda>v. Inr ''[object Object]'')
     [''c1'' \<mapsto> \<lparr>mcpClient = \<lparr>listTools = Inr [(''tools'', JArray [])],
                                callTool = (\<lambda>p. Inr JNull)\<rparr>,
                  messageQueue = []\<rparr>]
     (Some ''c1'')
     (JObject [(''jsonrpc'', JString ''2.0''), (''id'', JNumber 7), (''method'', JString [])])
   = [Respond 400 (JObject
        [(''jsonrpc'', JString ''2.0''),
         (''error'', JObject
            [(''code'', JNumber (- 32600)),
             (''message'', JString ''Missing method field'')]),
         (''id'', JNumber 7)])]
   \<and> post_message (\<lambda>v. Inl (Error ''Cannot convert object to primitive value''))
     [''c1'' \<mapsto> \<lparr>mcpClient = \<lparr>listTools = Inr [(''tools'', JArray [])],
                                callTool = (\<lambda>p. Inr JNull)\<rparr>,
                  messageQueue = []\<rparr>]
     (Some ''c1'')
     (JObject [(''jsonrpc'', JString ''2.0''), (''id'', JNumber 7),
               (''method'', JObject [(''toString'', JNumber 1)])])
   = [SendToClient (JObject
        [(''jsonrpc'', JString ''2.0''),
         (''id'', JNumber 7),
         (''error'', JObject
            [(''code'', JNumber (- 32603)),
             (''message'',
              JString ''Internal error: Cannot convert object to primitive value'')])]),
      Respond 500 (JObject
        [(''status'', JString ''error''),
         (''message'', JString ''Cannot convert object to primitive value'')])]"
  by (simp add: post_message_def dispatch_def catch_block_def template_def
        invalid_request_def or_null_def)




end
